theory Spec2Isabelle
  imports Complex_Main
begin

section \<open>The exercise merger of \<^verbatim>\<open>merge_exercises.py\<close>\<close>

text \<open>
  The script reads \<^verbatim>\<open>exercises.json\<close> (the primary store) and
  \<^verbatim>\<open>new_exercises.json\<close> (the incoming store), merges the incoming records into the
  primary list by their \<^verbatim>\<open>name\<close>, copies the primary store to
  \<^verbatim>\<open>exercises.json.bak\<close> and writes the merged list back. Everything happens inside
  one \<^verbatim>\<open>try\<close> block whose handler prints the exception.

  The embedding below follows the script statement by statement. The Python values, the
  dictionary operations, the exceptions and the file system the script works on are made
  explicit first.
\<close>

subsection \<open>Python values\<close>

text \<open>
  A Python \<^verbatim>\<open>float\<close>: the same numbers and more (every rational is a finite value; the
  script never computes with floats, it only compares them as dictionary keys).
  \<open>NegZero\<close> is \<^verbatim>\<open>-0.0\<close>; \<open>Finite 0\<close> is \<^verbatim>\<open>0.0\<close>.
\<close>

datatype pyfloat = Finite rat | NegZero | Inf bool | NaN

text \<open>
  What \<^verbatim>\<open>json.load\<close> produces, and also the document a JSON text spells out. A
  \<^verbatim>\<open>dict\<close> is the list of its items in insertion order. In a value built by
  Python the keys of a dictionary are pairwise distinct; a JSON text may repeat a key.
\<close>

datatype json =
    JNull
  | JBool bool
  | JInt int
  | JFloat pyfloat
  | JStr string
  | JArr "json list"
  | JObj "(string \<times> json) list"

text \<open>The exceptions the script can meet. All but the last two derive from
  \<^verbatim>\<open>Exception\<close>; \<^verbatim>\<open>KeyboardInterrupt\<close> and \<^verbatim>\<open>SystemExit\<close> derive from
  \<^verbatim>\<open>BaseException\<close> only, and an \<^verbatim>\<open>except Exception\<close> clause lets them
  pass.\<close>

datatype exn =
    FileNotFoundError string
  | JSONDecodeError
  | UnicodeDecodeError
  | KeyError string
  | TypeError
  | AttributeError
  | KeyboardInterrupt
  | SystemExit

fun is_Exception :: "exn \<Rightarrow> bool" where
  "is_Exception KeyboardInterrupt = False"
| "is_Exception SystemExit = False"
| "is_Exception _ = True"

subsection \<open>Dictionary operations\<close>

text \<open>\<^verbatim>\<open>d[k] = v\<close>: an existing key keeps its place and takes the new value, a new key
  goes to the end.\<close>

primrec dict_setitem :: "string \<Rightarrow> 'v \<Rightarrow> (string \<times> 'v) list \<Rightarrow> (string \<times> 'v) list" where
  "dict_setitem k v [] = [(k, v)]"
| "dict_setitem k v (p # ps) = (if fst p = k then (k, v) # ps else p # dict_setitem k v ps)"

text \<open>\<^verbatim>\<open>d.update(other)\<close>: the items of \<open>other\<close> are stored into \<open>d\<close> one by one, in
  order.\<close>

definition dict_update :: "(string \<times> 'v) list \<Rightarrow> (string \<times> 'v) list \<Rightarrow> (string \<times> 'v) list" where
  "dict_update d other = fold (\<lambda>(k, v). dict_setitem k v) other d"

text \<open>The value \<^verbatim>\<open>json.load\<close> builds from a document: arrays become lists, objects
  become dictionaries filled pair by pair (so of a repeated key the first place and the last
  value remain).\<close>

fun py_value :: "json \<Rightarrow> json" where
  "py_value (JArr xs) = JArr (map py_value xs)"
| "py_value (JObj kvs) = JObj (dict_update [] (map (\<lambda>(k, v). (k, py_value v)) kvs))"
| "py_value v = v"

text \<open>\<^verbatim>\<open>x['name']\<close>, a subscript with a string: only a dictionary accepts it, and raises
  \<^verbatim>\<open>KeyError\<close> when the key is missing. Lists and strings want integer indices, the
  other values are not subscriptable: \<^verbatim>\<open>TypeError\<close>.\<close>

fun subscript :: "json \<Rightarrow> string \<Rightarrow> exn + json" where
  "subscript (JObj kvs) k = (case map_of kvs k of None \<Rightarrow> Inl (KeyError k) | Some v \<Rightarrow> Inr v)"
| "subscript _ k = Inl TypeError"

text \<open>
  Dictionary keys. Python compares keys by \<^verbatim>\<open>==\<close> (after the hash): \<^verbatim>\<open>True\<close>,
  \<^verbatim>\<open>1\<close> and \<^verbatim>\<open>1.0\<close> are one key, as are \<^verbatim>\<open>0\<close>, \<^verbatim>\<open>0.0\<close> and
  \<^verbatim>\<open>-0.0\<close>. \<^verbatim>\<open>json.load\<close> returns one and the same object for every
  \<^verbatim>\<open>NaN\<close>, which a dictionary finds again by identity. Lists and dictionaries are
  unhashable: using one as a key raises \<^verbatim>\<open>TypeError\<close>.
\<close>

datatype key = KNone | KNum rat | KInf bool | KNaN | KStr string

fun py_hash :: "json \<Rightarrow> exn + key" where
  "py_hash JNull = Inr KNone"
| "py_hash (JBool b) = Inr (KNum (if b then 1 else 0))"
| "py_hash (JInt i) = Inr (KNum (of_int i))"
| "py_hash (JFloat (Finite q)) = Inr (KNum q)"
| "py_hash (JFloat NegZero) = Inr (KNum 0)"
| "py_hash (JFloat (Inf b)) = Inr (KInf b)"
| "py_hash (JFloat NaN) = Inr KNaN"
| "py_hash (JStr s) = Inr (KStr s)"
| "py_hash (JArr xs) = Inl TypeError"
| "py_hash (JObj kvs) = Inl TypeError"

text \<open>What a \<^verbatim>\<open>for\<close> loop or a comprehension iterates over: the elements of a list,
  the keys of a dictionary, the characters of a string; the other values are not
  iterable.\<close>

fun py_iter :: "json \<Rightarrow> exn + json list" where
  "py_iter (JArr xs) = Inr xs"
| "py_iter (JObj kvs) = Inr (map (\<lambda>(k, v). JStr k) kvs)"
| "py_iter (JStr s) = Inr (map (\<lambda>c. JStr [c]) s)"
| "py_iter _ = Inl TypeError"

subsection \<open>The file system\<close>

text \<open>
  A file is modelled by what \<^verbatim>\<open>open\<close> and \<^verbatim>\<open>json.load\<close> make of its bytes:
  \<^item> \<open>JsonText l doc\<close>: a text that spells the JSON document \<open>doc\<close>; the layout \<open>l\<close>
    stands for everything else in the bytes (white space, escapes, the spelling of numbers),
    so two files are the same bytes iff they are the same \<open>content\<close>;
  \<^item> \<open>Malformed t\<close>: a text that is not JSON (\<^verbatim>\<open>json.JSONDecodeError\<close>);
  \<^item> \<open>Undecodable b\<close>: bytes that are not text in the encoding of \<^verbatim>\<open>open\<close>
    (\<^verbatim>\<open>UnicodeDecodeError\<close>, a \<^verbatim>\<open>ValueError\<close> that is not a
    \<^verbatim>\<open>JSONDecodeError\<close>).
  The file system maps a path to the content of the file there. A missing file is the only
  failure of \<^verbatim>\<open>open\<close> in the model: permissions, directories and full disks are
  outside it.
\<close>

type_synonym layout = nat

datatype content = JsonText layout json | Malformed string | Undecodable string

type_synonym filesystem = "string \<rightharpoonup> content"

text \<open>The layout that \<^verbatim>\<open>json.dump(..., indent=2)\<close> writes.\<close>

definition indent2 :: layout where
  "indent2 = 2"

text \<open>\<^verbatim>\<open>with open(path, 'r') as f: json.load(f)\<close>\<close>

definition read_json :: "filesystem \<Rightarrow> string \<Rightarrow> exn + json" where
  "read_json fs path =
     (case fs path of
        None \<Rightarrow> Inl (FileNotFoundError path)
      | Some (JsonText l doc) \<Rightarrow> Inr (py_value doc)
      | Some (Malformed t) \<Rightarrow> Inl JSONDecodeError
      | Some (Undecodable b) \<Rightarrow> Inl UnicodeDecodeError)"

text \<open>\<^verbatim>\<open>shutil.copy2(src, dst)\<close>: the destination becomes a copy of the source, which
  must exist.\<close>

definition copy2 :: "filesystem \<Rightarrow> string \<Rightarrow> string \<Rightarrow> exn + filesystem" where
  "copy2 fs src dst =
     (case fs src of
        None \<Rightarrow> Inl (FileNotFoundError src)
      | Some c \<Rightarrow> Inr (fs(dst \<mapsto> c)))"

text \<open>\<^verbatim>\<open>with open(path, 'w') as f: json.dump(data, f, indent=2)\<close>\<close>

definition write_json :: "filesystem \<Rightarrow> string \<Rightarrow> json \<Rightarrow> filesystem" where
  "write_json fs path data = fs(path \<mapsto> JsonText indent2 data)"

subsection \<open>The script\<close>

definition EXERCISES_FILE :: string where
  "EXERCISES_FILE = ''exercises.json''"

definition NEW_EXERCISES_FILE :: string where
  "NEW_EXERCISES_FILE = ''new_exercises.json''"

text \<open>The inner \<^verbatim>\<open>try\<close>: a missing or malformed primary store counts as the empty
  list; any other exception goes on to the outer handler.\<close>

definition load_existing :: "filesystem \<Rightarrow> exn + json" where
  "load_existing fs =
     (case read_json fs EXERCISES_FILE of
        Inl (FileNotFoundError p) \<Rightarrow> Inr (JArr [])
      | Inl JSONDecodeError \<Rightarrow> Inr (JArr [])
      | Inl e \<Rightarrow> Inl e
      | Inr existing_data \<Rightarrow> Inr existing_data)"

text \<open>
  \<^verbatim>\<open>exercise_map = {ex['name']: ex for ex in existing_data}\<close>. The dictionary holds
  references to the records of \<open>existing_data\<close>, not copies. The elements of a loaded list
  are separate objects that are never removed or reordered, so a reference is modelled by the
  position of the record in \<open>existing_data\<close>. A later record with an equal name replaces the
  earlier entry.
\<close>

fun exercise_map_from :: "nat \<Rightarrow> json list \<Rightarrow> (key \<rightharpoonup> nat) \<Rightarrow> exn + (key \<rightharpoonup> nat)" where
  "exercise_map_from i [] m = Inr m"
| "exercise_map_from i (ex # rest) m =
     (case subscript ex ''name'' of
        Inl e \<Rightarrow> Inl e
      | Inr name \<Rightarrow>
          (case py_hash name of
             Inl e \<Rightarrow> Inl e
           | Inr k \<Rightarrow> exercise_map_from (Suc i) rest (m(k \<mapsto> i))))"

definition build_exercise_map :: "json \<Rightarrow> exn + (key \<rightharpoonup> nat)" where
  "build_exercise_map existing_data =
     (case py_iter existing_data of
        Inl e \<Rightarrow> Inl e
      | Inr exs \<Rightarrow> exercise_map_from 0 exs Map.empty)"

text \<open>The variables the merge loop changes.\<close>

record merge_state =
  existing_data :: json
  exercise_map :: "key \<rightharpoonup> nat"
  added_count :: nat
  updated_count :: nat

text \<open>\<^verbatim>\<open>exercise_map[name].update(new_ex)\<close>, by the position \<open>i\<close> the map holds for the
  name. The map only ever holds positions of dictionaries inside the list
  \<open>existing_data\<close> (lemmas \<open>refs_ok_init\<close> and \<open>refs_ok_loop\<close> below), and the
  record at hand is a dictionary, or its subscript would have raised; the other branches are
  there to make the function total.\<close>

definition update_record :: "json \<Rightarrow> nat \<Rightarrow> json \<Rightarrow> exn + json" where
  "update_record data i new_ex =
     (case data of
        JArr xs \<Rightarrow>
          (if i < length xs then
             (case (xs ! i, new_ex) of
                (JObj old, JObj new) \<Rightarrow> Inr (JArr (xs[i := JObj (dict_update old new)]))
              | (JObj old, _) \<Rightarrow> Inl TypeError
              | _ \<Rightarrow> Inl AttributeError)
           else Inl AttributeError)
      | _ \<Rightarrow> Inl AttributeError)"

text \<open>\<^verbatim>\<open>existing_data.append(new_ex)\<close>: only a list has \<^verbatim>\<open>append\<close>. The second
  component is the position of the appended record.\<close>

definition append_record :: "json \<Rightarrow> json \<Rightarrow> exn + json \<times> nat" where
  "append_record data new_ex =
     (case data of
        JArr xs \<Rightarrow> Inr (JArr (xs @ [new_ex]), length xs)
      | _ \<Rightarrow> Inl AttributeError)"

text \<open>One round of \<^verbatim>\<open>for new_ex in new_data\<close>.\<close>

definition merge_step :: "merge_state \<Rightarrow> json \<Rightarrow> exn + merge_state" where
  "merge_step s new_ex =
     (case subscript new_ex ''name'' of
        Inl e \<Rightarrow> Inl e
      | Inr name \<Rightarrow>
          (case py_hash name of
             Inl e \<Rightarrow> Inl e
           | Inr k \<Rightarrow>
               (case exercise_map s k of
                  Some i \<Rightarrow>
                    (case update_record (existing_data s) i new_ex of
                       Inl e \<Rightarrow> Inl e
                     | Inr data \<Rightarrow>
                         Inr (s\<lparr>existing_data := data, updated_count := updated_count s + 1\<rparr>))
                | None \<Rightarrow>
                    (case append_record (existing_data s) new_ex of
                       Inl e \<Rightarrow> Inl e
                     | Inr (data, i) \<Rightarrow>
                         Inr (s\<lparr>existing_data := data,
                                exercise_map := (exercise_map s)(k \<mapsto> i),
                                added_count := added_count s + 1\<rparr>)))))"

fun merge_loop :: "merge_state \<Rightarrow> json list \<Rightarrow> exn + merge_state" where
  "merge_loop s [] = Inr s"
| "merge_loop s (new_ex # rest) =
     (case merge_step s new_ex of
        Inl e \<Rightarrow> Inl e
      | Inr s' \<Rightarrow> merge_loop s' rest)"

text \<open>The body of the outer \<^verbatim>\<open>try\<close>: the exception raised or the two counts, and the
  file system as the body leaves it.\<close>

definition merge_body :: "filesystem \<Rightarrow> (exn + nat \<times> nat) \<times> filesystem" where
  "merge_body fs =
     (case load_existing fs of
        Inl e \<Rightarrow> (Inl e, fs)
      | Inr data \<Rightarrow>
     (case build_exercise_map data of
        Inl e \<Rightarrow> (Inl e, fs)
      | Inr m \<Rightarrow>
     (case read_json fs NEW_EXERCISES_FILE of
        Inl e \<Rightarrow> (Inl e, fs)
      | Inr new_data \<Rightarrow>
     (case py_iter new_data of
        Inl e \<Rightarrow> (Inl e, fs)
      | Inr new_exs \<Rightarrow>
     (case merge_loop \<lparr>existing_data = data, exercise_map = m,
                        added_count = 0, updated_count = 0\<rparr> new_exs of
        Inl e \<Rightarrow> (Inl e, fs)
      | Inr s \<Rightarrow>
     (case copy2 fs EXERCISES_FILE (EXERCISES_FILE @ ''.bak'') of
        Inl e \<Rightarrow> (Inl e, fs)
      | Inr fs' \<Rightarrow>
          (Inr (added_count s, updated_count s),
           write_json fs' EXERCISES_FILE (existing_data s))))))))"

text \<open>The line the script prints: \<^verbatim>\<open>Merge successful. Added: a, Updated: u\<close> or
  \<^verbatim>\<open>Error merging exercises: e\<close>.\<close>

datatype printed = MergeSuccessful nat nat | ErrorMerging exn

text \<open>How a call ends: it returns after printing a line, or an exception leaves it.\<close>

datatype outcome = Returns printed | Raises exn

text \<open>\<^verbatim>\<open>merge_exercises()\<close>: the body under \<^verbatim>\<open>except Exception as e\<close>.\<close>

definition merge_exercises :: "filesystem \<Rightarrow> outcome \<times> filesystem" where
  "merge_exercises fs =
     (case merge_body fs of
        (Inr (added, updated), fs') \<Rightarrow> (Returns (MergeSuccessful added updated), fs')
      | (Inl e, fs') \<Rightarrow>
          (if is_Exception e then (Returns (ErrorMerging e), fs') else (Raises e, fs')))"

subsection \<open>Notions for the proofs\<close>


text \<open>The key under which the script looks a record up: \<^verbatim>\<open>ex['name']\<close>, hashed. Both
  the comprehension that builds \<open>exercise_map\<close> and the loop compute it.\<close>

definition record_key :: "json \<Rightarrow> exn + key" where
  "record_key ex =
     (case subscript ex ''name'' of
        Inl e \<Rightarrow> Inl e
      | Inr name \<Rightarrow> py_hash name)"

text \<open>The index a list of records determines: a key goes to the last position whose record
  has it.\<close>

definition index_of :: "json list \<Rightarrow> (key \<rightharpoonup> nat)" where
  "index_of xs k = List.find (\<lambda>j. record_key (xs ! j) = Inr k) (rev [0..<length xs])"

text \<open>The items of a dictionary.\<close>

fun dict_items :: "json \<Rightarrow> (string \<times> json) list" where
  "dict_items (JObj kvs) = kvs"
| "dict_items _ = []"

text \<open>Every reference in \<open>exercise_map\<close> points to a dictionary in the list
  \<open>existing_data\<close>. This holds in every state of the loop, whatever the incoming records
  are.\<close>

definition refs_ok :: "merge_state \<Rightarrow> bool" where
  "refs_ok s \<longleftrightarrow>
     (\<forall>k i. exercise_map s k = Some i \<longrightarrow>
        (\<exists>xs old. existing_data s = JArr xs \<and> i < length xs \<and> xs ! i = JObj old))"


text \<open>The position an incoming record is merged into under the index \<open>m\<close>, and all the
  items that the incoming records \<open>rs\<close> store at position \<open>j\<close>, in the order of the
  run.\<close>

definition target :: "(key \<rightharpoonup> nat) \<Rightarrow> json \<Rightarrow> nat option" where
  "target m r = (case record_key r of Inl e \<Rightarrow> None | Inr k \<Rightarrow> m k)"

definition writes_to :: "(key \<rightharpoonup> nat) \<Rightarrow> nat \<Rightarrow> json list \<Rightarrow> (string \<times> json) list" where
  "writes_to m j rs = concat (map dict_items (filter (\<lambda>r. target m r = Some j) rs))"

section \<open>Properties\<close>

subsection \<open>Every exception of the body derives from Exception\<close>

lemma subscript_exn: "subscript x k = Inl e \<Longrightarrow> is_Exception e"
  by (cases x) (auto split: option.splits)

lemma py_hash_exn: "py_hash x = Inl e \<Longrightarrow> is_Exception e"
  by (induction x rule: py_hash.induct) auto

lemma py_iter_exn: "py_iter x = Inl e \<Longrightarrow> is_Exception e"
  by (cases x) auto

lemma read_json_exn: "read_json fs p = Inl e \<Longrightarrow> is_Exception e"
  by (auto simp: read_json_def split: option.splits content.splits)

lemma load_existing_exn: "load_existing fs = Inl e \<Longrightarrow> is_Exception e"
  by (auto simp: load_existing_def split: sum.splits exn.splits dest: read_json_exn)

lemma exercise_map_from_exn: "exercise_map_from i exs m = Inl e \<Longrightarrow> is_Exception e"
  by (induction exs arbitrary: i m)
     (auto split: sum.splits dest: subscript_exn py_hash_exn)

lemma build_exercise_map_exn: "build_exercise_map d = Inl e \<Longrightarrow> is_Exception e"
  by (auto simp: build_exercise_map_def split: sum.splits
           dest: py_iter_exn exercise_map_from_exn)

lemma update_record_exn: "update_record d i x = Inl e \<Longrightarrow> is_Exception e"
  by (auto simp: update_record_def split: json.splits if_splits)

lemma append_record_exn: "append_record d x = Inl e \<Longrightarrow> is_Exception e"
  by (auto simp: append_record_def split: json.splits)

lemma merge_step_exn: "merge_step s x = Inl e \<Longrightarrow> is_Exception e"
  by (auto simp: merge_step_def split: sum.splits option.splits prod.splits
           dest: subscript_exn py_hash_exn update_record_exn append_record_exn)

lemma merge_loop_exn: "merge_loop s xs = Inl e \<Longrightarrow> is_Exception e"
  by (induction xs arbitrary: s) (auto split: sum.splits dest: merge_step_exn)

lemma copy2_exn: "copy2 fs a b = Inl e \<Longrightarrow> is_Exception e"
  by (auto simp: copy2_def split: option.splits)

lemma merge_body_exn: "fst (merge_body fs) = Inl e \<Longrightarrow> is_Exception e"
  by (auto simp: merge_body_def split: sum.splits
           dest: load_existing_exn build_exercise_map_exn read_json_exn py_iter_exn
                 merge_loop_exn copy2_exn)

subsection \<open>How a run ends\<close>

text \<open>A run that raises leaves the file system as it found it; and since every exception
  derives from \<^verbatim>\<open>Exception\<close>, the handler prints it.\<close>

lemma merge_body_error_unchanged: "fst (merge_body fs) = Inl e \<Longrightarrow> snd (merge_body fs) = fs"
  by (auto simp: merge_body_def split: sum.splits)

lemma merge_exercises_cases:
  "(\<exists>a u fs'. merge_body fs = (Inr (a, u), fs') \<and> merge_exercises fs = (Returns (MergeSuccessful a u), fs'))
   \<or> (\<exists>e. fst (merge_body fs) = Inl e \<and> merge_exercises fs = (Returns (ErrorMerging e), fs))"
proof (cases "fst (merge_body fs)")
  case (Inl e)
  then have "is_Exception e" "snd (merge_body fs) = fs"
    by (auto dest: merge_body_exn merge_body_error_unchanged)
  with Inl show ?thesis
    by (auto simp: merge_exercises_def split: prod.splits sum.splits)
next
  case (Inr r)
  then show ?thesis
    by (cases r) (auto simp: merge_exercises_def split: prod.splits sum.splits)
qed

text \<open>The definitions a run on a concrete file system unfolds.\<close>

lemmas run_defs =
  merge_exercises_def merge_body_def load_existing_def read_json_def build_exercise_map_def
  merge_step_def update_record_def append_record_def copy2_def write_json_def dict_update_def
  EXERCISES_FILE_def NEW_EXERCISES_FILE_def

subsection \<open>Dictionaries\<close>

lemma dict_setitem_keys:
  "map fst (dict_setitem k v d) = (if k \<in> fst ` set d then map fst d else map fst d @ [k])"
  by (induction d) auto



lemma map_of_dict_setitem: "map_of (dict_setitem k v d) = (map_of d)(k \<mapsto> v)"
  by (induction d) auto



lemma dict_update_Nil [simp]: "dict_update d [] = d"
  by (simp add: dict_update_def)

lemma dict_update_Cons [simp]:
  "dict_update d ((k, v) # other) = dict_update (dict_setitem k v d) other"
  by (simp add: dict_update_def)










lemma map_of_dict_update:
  "distinct (map fst other) \<Longrightarrow> map_of (dict_update d other) = map_of d ++ map_of other"
proof (induction other arbitrary: d)
  case Nil show ?case by simp
next
  case (Cons p other)
  obtain k v where p: "p = (k, v)" by (cases p)
  from Cons.prems have k: "k \<notin> dom (map_of other)" and d: "distinct (map fst other)"
    by (auto simp: p dom_map_of_conv_image_fst)
  have "map_of (dict_update d (p # other)) = map_of (dict_setitem k v d) ++ map_of other"
    unfolding p dict_update_Cons by (rule Cons.IH [OF d])
  also have "\<dots> = (map_of d)(k \<mapsto> v) ++ map_of other"
    by (simp only: map_of_dict_setitem)
  also have "\<dots> = map_of d ++ (map_of other)(k \<mapsto> v)"
  proof (rule ext)
    fix f
    from k have "map_of other k = None" by (simp add: domIff)
    then show "((map_of d)(k \<mapsto> v) ++ map_of other) f
        = (map_of d ++ (map_of other)(k \<mapsto> v)) f"
      by (cases "f = k") (simp_all add: map_add_def split: option.splits)
  qed
  also have "\<dots> = map_of d ++ map_of (p # other)"
    by (simp add: p)
  finally show ?case .
qed

lemma dict_update_keys:
  "distinct (map fst other) \<Longrightarrow>
   map fst (dict_update d other) = map fst d @ filter (\<lambda>f. f \<notin> fst ` set d) (map fst other)"
proof (induction other arbitrary: d)
  case Nil show ?case by simp
next
  case (Cons p other)
  obtain k v where p: "p = (k, v)" by (cases p)
  from Cons.prems have k: "k \<notin> fst ` set other" and d: "distinct (map fst other)"
    by (auto simp: p)
  have keys: "map fst (dict_setitem k v d)
      = (if k \<in> fst ` set d then map fst d else map fst d @ [k])"
    by (rule dict_setitem_keys)
  show ?case
  proof (cases "k \<in> fst ` set d")
    case True
    with keys have "map fst (dict_setitem k v d) = map fst d" by simp
    from arg_cong [OF this, of set] have "fst ` set (dict_setitem k v d) = fst ` set d"
      by simp
    with Cons.IH [OF d, of "dict_setitem k v d"] keys True show ?thesis by (simp add: p)
  next
    case False
    with keys have "map fst (dict_setitem k v d) = map fst d @ [k]" by simp
    from arg_cong [OF this, of set]
    have s: "fst ` set (dict_setitem k v d) = insert k (fst ` set d)"
      by simp
    have "filter (\<lambda>f. f \<notin> insert k (fst ` set d)) (map fst other)
        = filter (\<lambda>f. f \<notin> fst ` set d) (map fst other)"
      using k by (intro filter_cong) auto
    with Cons.IH [OF d, of "dict_setitem k v d"] keys False s show ?thesis by (simp add: p)
  qed
qed

subsection \<open>Loaded values\<close>





subsection \<open>The index\<close>

lemma record_key_dict: "record_key x = Inr k \<Longrightarrow> \<exists>kvs. x = JObj kvs"
  by (cases x) (auto simp: record_key_def)

lemma record_key_exn: "record_key x = Inl e \<Longrightarrow> is_Exception e"
  by (auto simp: record_key_def split: sum.splits dest: subscript_exn py_hash_exn)

lemma index_of_Nil [simp]: "index_of [] = Map.empty"
  by (rule ext) (simp add: index_of_def)

lemma index_of_snoc:
  "index_of (xs @ [r]) k = (if record_key r = Inr k then Some (length xs) else index_of xs k)"
proof -
  have "List.find (\<lambda>j. record_key ((xs @ [r]) ! j) = Inr k) (rev [0..<length xs])
      = List.find (\<lambda>j. record_key (xs ! j) = Inr k) (rev [0..<length xs])"
    by (rule find_cong) (auto simp: nth_append)
  then show ?thesis by (simp add: index_of_def)
qed

lemma index_of_snoc_key:
  "record_key r = Inr k \<Longrightarrow> index_of (xs @ [r]) = (index_of xs)(k \<mapsto> length xs)"
  by (rule ext) (auto simp: index_of_snoc)

lemma index_of_Some_iff:
  "index_of xs k = Some i \<longleftrightarrow>
     i < length xs \<and> record_key (xs ! i) = Inr k
     \<and> (\<forall>j. i < j \<and> j < length xs \<longrightarrow> record_key (xs ! j) \<noteq> Inr k)"
  (is "?L xs \<longleftrightarrow> ?R xs")
proof (induction xs rule: rev_induct)
  case Nil show ?case by simp
next
  case (snoc r xs)
  let ?n = "length xs"
  have last: "(xs @ [r]) ! ?n = r" by simp
  have before: "\<And>j. j < ?n \<Longrightarrow> (xs @ [r]) ! j = xs ! j" by (simp add: nth_append)
  show ?case
  proof (cases "record_key r = Inr k")
    case True
    have "?R (xs @ [r]) \<longleftrightarrow> i = ?n"
    proof
      assume r: "?R (xs @ [r])"
      show "i = ?n"
      proof (rule ccontr)
        assume "i \<noteq> ?n"
        with r have "i < ?n" by simp
        moreover from r have "\<forall>j. i < j \<and> j < length (xs @ [r])
            \<longrightarrow> record_key ((xs @ [r]) ! j) \<noteq> Inr k" by blast
        ultimately have "record_key r \<noteq> Inr k" by (elim allE [of _ ?n]) simp
        with True show False by simp
      qed
    next
      assume "i = ?n"
      moreover have "\<forall>j. ?n < j \<and> j < length (xs @ [r])
          \<longrightarrow> record_key ((xs @ [r]) ! j) \<noteq> Inr k"
      proof (intro allI impI)
        fix j assume "?n < j \<and> j < length (xs @ [r])"
        then have False by simp arith
        then show "record_key ((xs @ [r]) ! j) \<noteq> Inr k" ..
      qed
      ultimately show "?R (xs @ [r])" using True by simp
    qed
    with True show ?thesis by (auto simp: index_of_snoc)
  next
    case False
    have "?R (xs @ [r]) \<longleftrightarrow> ?R xs"
    proof
      assume r: "?R (xs @ [r])"
      have "i \<noteq> ?n" using r False last by auto
      with r have i: "i < ?n" by simp
      moreover have "record_key (xs ! i) = Inr k" using r i before by simp
      moreover have "\<forall>j. i < j \<and> j < ?n \<longrightarrow> record_key (xs ! j) \<noteq> Inr k"
      proof (intro allI impI)
        fix j assume j: "i < j \<and> j < ?n"
        from r have "\<forall>j. i < j \<and> j < length (xs @ [r])
            \<longrightarrow> record_key ((xs @ [r]) ! j) \<noteq> Inr k" by blast
        with j have "record_key ((xs @ [r]) ! j) \<noteq> Inr k" by (elim allE [of _ j]) simp
        with j before show "record_key (xs ! j) \<noteq> Inr k" by simp
      qed
      ultimately show "?R xs" by simp
    next
      assume r: "?R xs"
      then have i: "i < ?n" by simp
      have "\<forall>j. i < j \<and> j < length (xs @ [r]) \<longrightarrow> record_key ((xs @ [r]) ! j) \<noteq> Inr k"
      proof (intro allI impI)
        fix j assume j: "i < j \<and> j < length (xs @ [r])"
        show "record_key ((xs @ [r]) ! j) \<noteq> Inr k"
        proof (cases "j = ?n")
          case True
          with False last show ?thesis by simp
        next
          case False
          with j have "j < ?n" by simp
          with r j before show ?thesis by simp
        qed
      qed
      with r i before show "?R (xs @ [r])" by simp
    qed
    with False snoc.IH show ?thesis by (simp add: index_of_snoc)
  qed
qed

lemma index_of_None_iff:
  "index_of xs k = None \<longleftrightarrow> (\<forall>j < length xs. record_key (xs ! j) \<noteq> Inr k)"
  by (auto simp: index_of_def find_None_iff)


lemma exercise_map_from_step:
  "exercise_map_from i (ex # rest) m =
     (case record_key ex of
        Inl e \<Rightarrow> Inl e
      | Inr k \<Rightarrow> exercise_map_from (Suc i) rest (m(k \<mapsto> i)))"
  by (simp add: record_key_def split: sum.splits)

lemma exercise_map_from_index:
  "exercise_map_from (length pre) exs (index_of pre) = Inr m \<longleftrightarrow>
     (\<forall>x \<in> set exs. \<exists>k. record_key x = Inr k) \<and> m = index_of (pre @ exs)"
proof (induction exs arbitrary: pre)
  case Nil show ?case by auto
next
  case (Cons ex rest)
  show ?case
  proof (cases "record_key ex")
    case (Inl e)
    then show ?thesis by (auto simp: exercise_map_from_step simp del: exercise_map_from.simps)
  next
    case (Inr k)
    have "exercise_map_from (length pre) (ex # rest) (index_of pre)
        = exercise_map_from (length (pre @ [ex])) rest (index_of (pre @ [ex]))"
      using Inr by (simp add: exercise_map_from_step index_of_snoc_key
                         del: exercise_map_from.simps)
    then show ?thesis using Cons.IH [of "pre @ [ex]"] Inr by auto
  qed
qed

lemma build_exercise_map_list:
  "build_exercise_map (JArr xs) = Inr m \<longleftrightarrow>
     (\<forall>x \<in> set xs. \<exists>k. record_key x = Inr k) \<and> m = index_of xs"
  using exercise_map_from_index [of "[]" xs m] by (simp add: build_exercise_map_def)

lemma build_exercise_map_cases:
  assumes "build_exercise_map d = Inr m"
  shows "(\<exists>xs. d = JArr xs \<and> (\<forall>x \<in> set xs. \<exists>k. record_key x = Inr k) \<and> m = index_of xs)
       \<or> (py_iter d = Inr [] \<and> m = Map.empty \<and> (d = JObj [] \<or> d = JStr []))"
proof (cases d)
  case (JArr xs)
  with assms show ?thesis by (simp add: build_exercise_map_list)
next
  case (JObj kvs)
  with assms show ?thesis
    by (cases kvs) (auto simp: build_exercise_map_def split: prod.splits)
next
  case (JStr s)
  with assms show ?thesis
    by (cases s) (auto simp: build_exercise_map_def)
qed (use assms in \<open>auto simp: build_exercise_map_def\<close>)



subsection \<open>The steps of the loop\<close>

lemma merge_step_key:
  "merge_step s new_ex =
     (case record_key new_ex of
        Inl e \<Rightarrow> Inl e
      | Inr k \<Rightarrow>
          (case exercise_map s k of
             Some i \<Rightarrow>
               (case update_record (existing_data s) i new_ex of
                  Inl e \<Rightarrow> Inl e
                | Inr data \<Rightarrow>
                    Inr (s\<lparr>existing_data := data, updated_count := updated_count s + 1\<rparr>))
           | None \<Rightarrow>
               (case append_record (existing_data s) new_ex of
                  Inl e \<Rightarrow> Inl e
                | Inr (data, i) \<Rightarrow>
                    Inr (s\<lparr>existing_data := data,
                           exercise_map := (exercise_map s)(k \<mapsto> i),
                           added_count := added_count s + 1\<rparr>))))"
  by (simp add: merge_step_def record_key_def split: sum.splits)

lemma refs_ok_init:
  assumes "build_exercise_map d = Inr m"
  shows "refs_ok \<lparr>existing_data = d, exercise_map = m, added_count = a, updated_count = u\<rparr>"
  using build_exercise_map_cases [OF assms]
  by (auto simp: refs_ok_def index_of_Some_iff dest: record_key_dict)

lemma step_update:
  assumes "refs_ok s" and "record_key new_ex = Inr k" and "exercise_map s k = Some i"
  shows "\<exists>xs old new. existing_data s = JArr xs \<and> i < length xs \<and> xs ! i = JObj old
           \<and> new_ex = JObj new
           \<and> merge_step s new_ex =
               Inr (s\<lparr>existing_data := JArr (xs[i := JObj (dict_update old new)]),
                      updated_count := updated_count s + 1\<rparr>)"
proof -
  from assms(1,3) have "\<exists>xs old. existing_data s = JArr xs \<and> i < length xs \<and> xs ! i = JObj old"
    unfolding refs_ok_def by blast
  then obtain xs old
    where "existing_data s = JArr xs" "i < length xs" "xs ! i = JObj old"
    by blast
  moreover from assms(2) obtain new where "new_ex = JObj new"
    by (auto dest: record_key_dict)
  ultimately show ?thesis
    using assms(2,3) by (simp add: merge_step_key update_record_def)
qed

lemma step_add:
  assumes "record_key new_ex = Inr k" and "exercise_map s k = None"
    and "existing_data s = JArr xs"
  shows "merge_step s new_ex =
           Inr (s\<lparr>existing_data := JArr (xs @ [new_ex]),
                  exercise_map := (exercise_map s)(k \<mapsto> length xs),
                  added_count := added_count s + 1\<rparr>)"
  using assms by (simp add: merge_step_key append_record_def)

lemma merge_step_cases:
  assumes "refs_ok s" and "merge_step s new_ex = Inr s'"
  obtains (update) k i xs old new where
      "record_key new_ex = Inr k" "exercise_map s k = Some i" "existing_data s = JArr xs"
      "i < length xs" "xs ! i = JObj old" "new_ex = JObj new"
      "s' = s\<lparr>existing_data := JArr (xs[i := JObj (dict_update old new)]),
               updated_count := updated_count s + 1\<rparr>"
    | (add) k xs new where
      "record_key new_ex = Inr k" "exercise_map s k = None" "existing_data s = JArr xs"
      "new_ex = JObj new"
      "s' = s\<lparr>existing_data := JArr (xs @ [new_ex]),
               exercise_map := (exercise_map s)(k \<mapsto> length xs),
               added_count := added_count s + 1\<rparr>"
proof -
  from assms(2) obtain k where k: "record_key new_ex = Inr k"
    by (auto simp: merge_step_key split: sum.splits)
  then obtain new where new: "new_ex = JObj new" by (auto dest: record_key_dict)
  show thesis
  proof (cases "exercise_map s k")
    case (Some i)
    from step_update [OF assms(1) k Some] assms(2) new k Some show thesis
      by (auto intro: update)
  next
    case None
    with assms(2) k obtain xs where xs: "existing_data s = JArr xs"
      by (auto simp: merge_step_key append_record_def split: json.splits)
    from step_add [OF k None xs] assms(2) new k None xs show thesis
      by (auto intro: add)
  qed
qed

lemma refs_ok_step:
  assumes "refs_ok s" and "merge_step s new_ex = Inr s'"
  shows "refs_ok s'"
  using assms
proof (cases rule: merge_step_cases)
  case (update k i xs old new)
  show ?thesis
    unfolding refs_ok_def
  proof (intro allI impI)
    fix k' i' assume "exercise_map s' k' = Some i'"
    with update have "exercise_map s k' = Some i'" by simp
    with assms(1) have "\<exists>ys old. existing_data s = JArr ys \<and> i' < length ys \<and> ys ! i' = JObj old"
      unfolding refs_ok_def by blast
    with update obtain old' where "i' < length xs" "xs ! i' = JObj old'"
      by auto
    then show "\<exists>xs old. existing_data s' = JArr xs \<and> i' < length xs \<and> xs ! i' = JObj old"
      using update by (cases "i' = i") auto
  qed
next
  case (add k xs new)
  show ?thesis
    unfolding refs_ok_def
  proof (intro allI impI)
    fix k' i' assume h: "exercise_map s' k' = Some i'"
    show "\<exists>xs old. existing_data s' = JArr xs \<and> i' < length xs \<and> xs ! i' = JObj old"
    proof (cases "k' = k")
      case True
      with h add show ?thesis by auto
    next
      case False
      with h add have "exercise_map s k' = Some i'" by simp
      with assms(1) have "\<exists>ys old. existing_data s = JArr ys \<and> i' < length ys \<and> ys ! i' = JObj old"
        unfolding refs_ok_def by blast
      with add obtain old' where "i' < length xs" "xs ! i' = JObj old'"
        by auto
      then show ?thesis using add by (auto simp: nth_append)
    qed
  qed
qed

lemma refs_ok_loop:
  "refs_ok s \<Longrightarrow> merge_loop s new_exs = Inr s' \<Longrightarrow> refs_ok s'"
  by (induction new_exs arbitrary: s) (auto split: sum.splits dest: refs_ok_step)

subsection \<open>Whole runs\<close>

lemma load_existing_read:
  "read_json fs EXERCISES_FILE = Inr data \<Longrightarrow> load_existing fs = Inr data"
  by (simp add: load_existing_def)

lemma read_json_present: "read_json fs p = Inr data \<Longrightarrow> \<exists>c. fs p = Some c"
  by (auto simp: read_json_def split: option.splits)

lemma merge_exercises_success:
  assumes "load_existing fs = Inr data"
    and "build_exercise_map data = Inr m"
    and "read_json fs NEW_EXERCISES_FILE = Inr new_data"
    and "py_iter new_data = Inr new_exs"
    and "merge_loop \<lparr>existing_data = data, exercise_map = m,
                     added_count = 0, updated_count = 0\<rparr> new_exs = Inr s"
    and "fs EXERCISES_FILE = Some c"
  shows "merge_exercises fs =
           (Returns (MergeSuccessful (added_count s) (updated_count s)),
            fs(EXERCISES_FILE @ ''.bak'' \<mapsto> c,
               EXERCISES_FILE \<mapsto> JsonText indent2 (existing_data s)))"
  using assms by (simp add: merge_exercises_def merge_body_def copy2_def write_json_def)

subsection \<open>Records without a name\<close>

lemma record_key_nameless:
  "''name'' \<notin> fst ` set r \<Longrightarrow> record_key (JObj r) = Inl (KeyError ''name'')"
proof -
  assume "''name'' \<notin> fst ` set r"
  then have "map_of r ''name'' = None" by (simp add: map_of_eq_None_iff)
  then show ?thesis by (simp add: record_key_def)
qed

lemma merge_loop_append:
  "merge_loop s (a @ b) =
     (case merge_loop s a of Inl e \<Rightarrow> Inl e | Inr s' \<Rightarrow> merge_loop s' b)"
  by (induction a arbitrary: s) (auto split: sum.splits)

lemma merge_step_keyed: "merge_step s x = Inr s' \<Longrightarrow> \<exists>k. record_key x = Inr k"
  by (auto simp: merge_step_key split: sum.splits)

lemma merge_step_unkeyed: "record_key x = Inl e \<Longrightarrow> merge_step s x = Inl e"
  by (simp add: merge_step_key)

lemma merge_loop_keyed:
  "merge_loop s xs = Inr s' \<Longrightarrow> \<forall>x \<in> set xs. \<exists>k. record_key x = Inr k"
  by (induction xs arbitrary: s) (auto split: sum.splits dest: merge_step_keyed)

lemma exercise_map_from_first_failure:
  "\<forall>x \<in> set pre. \<exists>k. record_key x = Inr k \<Longrightarrow> record_key x = Inl e \<Longrightarrow>
   exercise_map_from i (pre @ x # post) m = Inl e"
proof (induction pre arbitrary: i m)
  case Nil
  then show ?case by (simp add: exercise_map_from_step del: exercise_map_from.simps)
next
  case (Cons p pre)
  then obtain k where "record_key p = Inr k" by auto
  with Cons show ?case
    by (simp add: exercise_map_from_step del: exercise_map_from.simps)
qed

lemma merge_exercises_error:
  assumes "fst (merge_body fs) = Inl e"
  shows "is_Exception e \<and> merge_exercises fs = (Returns (ErrorMerging e), fs)"
  using assms merge_exercises_cases [of fs] by (auto dest: merge_body_exn)

subsection \<open>The invariant of the loop on Python values\<close>









subsection \<open>What a run stores into each record\<close>

text \<open>After the loop, the record at position \<open>j\<close> is what was there before (nothing, for an
  appended record) updated with all the items the run stored at \<open>j\<close>, in order.\<close>

lemma writes_to_Nil [simp]: "writes_to m j [] = []"
  by (simp add: writes_to_def)



subsection \<open>Running the loop again\<close>








subsection \<open>Stores that hold records merge\<close>



subsection \<open>A missing primary store\<close>

text \<open>With no primary store no run gets past the backup step.\<close>

lemma missing_primary_aborts:
  assumes "fs EXERCISES_FILE = None"
  shows "\<exists>e. is_Exception e \<and> merge_exercises fs = (Returns (ErrorMerging e), fs)"
proof -
  from assms have "\<exists>e. fst (merge_body fs) = Inl e"
    by (auto simp: merge_body_def copy2_def split: sum.splits)
  then show ?thesis by (auto dest: merge_exercises_error)
qed

section \<open>The claims\<close>

text \<open>
  C1 (fresh start). With no primary store and an incoming store of two records named
  \<open>squat\<close> and \<open>lunge\<close>, the run should succeed, write both records and report two
  additions. The script does load the empty list for the missing store, but then
  \<^verbatim>\<open>shutil.copy2\<close> is called on the missing file: the run ends with the printed
  \<^verbatim>\<open>FileNotFoundError\<close> and nothing is written.
\<close>

theorem fresh_start_fails:
  "merge_exercises
     [NEW_EXERCISES_FILE \<mapsto>
        JsonText 0 (JArr [JObj [(''name'', JStr ''squat'')], JObj [(''name'', JStr ''lunge'')]])]
   = (Returns (ErrorMerging (FileNotFoundError ''exercises.json'')),
      [NEW_EXERCISES_FILE \<mapsto>
        JsonText 0 (JArr [JObj [(''name'', JStr ''squat'')], JObj [(''name'', JStr ''lunge'')]])])"
  by (simp add: run_defs)

text \<open>
  C2 (backup skipped on a fresh start). With no primary store the backup step should be
  skipped and the merged list written. The script has no such test: even with an empty
  incoming list the copy raises and the primary store is not written.
\<close>

theorem backup_not_skipped:
  "merge_exercises [NEW_EXERCISES_FILE \<mapsto> JsonText 0 (JArr [])]
   = (Returns (ErrorMerging (FileNotFoundError ''exercises.json'')),
      [NEW_EXERCISES_FILE \<mapsto> JsonText 0 (JArr [])])"
  by (simp add: run_defs)

text \<open>
  C3 (a failing incoming store is non-destructive). Whenever reading the incoming store
  raises (the file is missing, malformed or undecodable), the run returns with a printed
  error and the whole file system, the primary store and the backup path included, is what it
  was before.
\<close>

theorem incoming_failure_non_destructive:
  assumes "read_json fs NEW_EXERCISES_FILE = Inl e"
  shows "\<exists>e'. is_Exception e' \<and> merge_exercises fs = (Returns (ErrorMerging e'), fs)"
proof -
  from assms have "\<exists>e'. fst (merge_body fs) = Inl e'"
    by (auto simp: merge_body_def split: sum.splits)
  then show ?thesis
    using merge_exercises_cases [of fs] by (auto dest: merge_body_exn)
qed

theorem incoming_failure_non_destructive_witness:
  "read_json [EXERCISES_FILE \<mapsto> JsonText 0 (JArr [JObj [(''name'', JStr ''squat'')]])]
     NEW_EXERCISES_FILE = Inl (FileNotFoundError ''new_exercises.json'')
   \<and> merge_exercises [EXERCISES_FILE \<mapsto> JsonText 0 (JArr [JObj [(''name'', JStr ''squat'')]])]
     = (Returns (ErrorMerging (FileNotFoundError ''new_exercises.json'')),
        [EXERCISES_FILE \<mapsto> JsonText 0 (JArr [JObj [(''name'', JStr ''squat'')]])])"
proof -
  let ?fs = "[EXERCISES_FILE \<mapsto> JsonText 0 (JArr [JObj [(''name'', JStr ''squat'')]])]"
  have h: "read_json ?fs NEW_EXERCISES_FILE = Inl (FileNotFoundError ''new_exercises.json'')"
    by (simp add: read_json_def EXERCISES_FILE_def NEW_EXERCISES_FILE_def)
  from incoming_failure_non_destructive [OF h]
  obtain e' where "merge_exercises ?fs = (Returns (ErrorMerging e'), ?fs)" by blast
  moreover have "fst (merge_exercises ?fs)
      = Returns (ErrorMerging (FileNotFoundError ''new_exercises.json''))"
    by (simp add: run_defs)
  ultimately show ?thesis using h by simp
qed

text \<open>
  C7 (backup fidelity), as stated: after every run that found a primary store, the backup
  exists and holds the primary store's previous content. This fails for a run that aborts
  before the backup step: here the primary store exists, the incoming store is missing, and
  no backup exists afterwards.
\<close>

theorem backup_missing_after_failed_run:
  "[EXERCISES_FILE \<mapsto> JsonText 0 (JArr [])] EXERCISES_FILE = Some (JsonText 0 (JArr []))
   \<and> snd (merge_exercises [EXERCISES_FILE \<mapsto> JsonText 0 (JArr [])])
        (EXERCISES_FILE @ ''.bak'') = None"
  by (simp add: run_defs)

text \<open>
  C7, amended: after every run that reports success, a primary store did exist before the
  run, and the backup holds exactly the content the primary store had before the run.
\<close>

theorem backup_fidelity:
  assumes "fst (merge_exercises fs) = Returns (MergeSuccessful a u)"
  shows "\<exists>c. fs EXERCISES_FILE = Some c
           \<and> snd (merge_exercises fs) (EXERCISES_FILE @ ''.bak'') = Some c"
proof -
  from assms merge_exercises_cases [of fs]
  obtain a' u' fs' where b: "merge_body fs = (Inr (a', u'), fs')"
    and m: "merge_exercises fs = (Returns (MergeSuccessful a' u'), fs')"
    by auto
  from b obtain c s where "fs EXERCISES_FILE = Some c"
    and "fs' = write_json (fs(EXERCISES_FILE @ ''.bak'' \<mapsto> c)) EXERCISES_FILE s"
    by (auto simp: merge_body_def copy2_def split: sum.splits option.splits)
  then show ?thesis
    using m by (simp add: write_json_def EXERCISES_FILE_def)
qed

theorem backup_fidelity_witness:
  "fst (merge_exercises
     [EXERCISES_FILE \<mapsto> Malformed ''not json'',
      NEW_EXERCISES_FILE \<mapsto> JsonText 0 (JArr [JObj [(''name'', JStr ''squat'')]])])
     = Returns (MergeSuccessful 1 0)
   \<and> snd (merge_exercises
     [EXERCISES_FILE \<mapsto> Malformed ''not json'',
      NEW_EXERCISES_FILE \<mapsto> JsonText 0 (JArr [JObj [(''name'', JStr ''squat'')]])])
     (EXERCISES_FILE @ ''.bak'') = Some (Malformed ''not json'')"
proof -
  let ?fs = "[EXERCISES_FILE \<mapsto> Malformed ''not json'',
      NEW_EXERCISES_FILE \<mapsto> JsonText 0 (JArr [JObj [(''name'', JStr ''squat'')]])]"
  have h: "fst (merge_exercises ?fs) = Returns (MergeSuccessful 1 0)"
    by (simp add: run_defs)
  from backup_fidelity [OF h] have
    "snd (merge_exercises ?fs) (EXERCISES_FILE @ ''.bak'') = Some (Malformed ''not json'')"
    by (auto simp: EXERCISES_FILE_def NEW_EXERCISES_FILE_def)
  with h show ?thesis by simp
qed

text \<open>
  C8 (nothing is raised past the boundary). On every file system the call returns after
  printing one line: the success line with the two counts, or the error line with the
  exception, which then derives from \<^verbatim>\<open>Exception\<close>; in the second case the file
  system is untouched.
\<close>

theorem never_raises:
  "(\<exists>a u. fst (merge_exercises fs) = Returns (MergeSuccessful a u))
   \<or> (\<exists>e. is_Exception e \<and> merge_exercises fs = (Returns (ErrorMerging e), fs))"
  using merge_exercises_cases [of fs] by (auto dest: merge_body_exn)

text \<open>
  C4 (update semantics). Let \<open>s\<close> be any state the loop reaches from the loaded primary
  data, and let the next incoming record (a dictionary \<open>new\<close>, so with distinct keys) have
  a name that is in the index, at position \<open>i\<close>. Then \<open>i\<close> is the position of a
  dictionary \<open>old\<close> in the primary list, and the step replaces exactly that element, in
  place, by \<open>old\<close> updated with \<open>new\<close>: every field of \<open>new\<close> has its incoming
  value, every other field keeps the value it had in \<open>old\<close>, the fields of \<open>old\<close> keep
  their order and the fields that are new follow them. The update count grows by one; the
  index and the addition count are unchanged.
\<close>

theorem update_semantics:
  assumes "build_exercise_map data = Inr m"
    and "merge_loop \<lparr>existing_data = data, exercise_map = m,
                     added_count = 0, updated_count = 0\<rparr> earlier = Inr s"
    and "subscript (JObj new) ''name'' = Inr name" and "py_hash name = Inr k"
    and "exercise_map s k = Some i"
    and "distinct (map fst new)"
  shows "\<exists>xs old. existing_data s = JArr xs \<and> i < length xs \<and> xs ! i = JObj old
           \<and> merge_step s (JObj new) =
               Inr (s\<lparr>existing_data := JArr (xs[i := JObj (dict_update old new)]),
                      updated_count := updated_count s + 1\<rparr>)
           \<and> (\<forall>(f, v) \<in> set new. map_of (dict_update old new) f = Some v)
           \<and> (\<forall>f. f \<notin> fst ` set new \<longrightarrow> map_of (dict_update old new) f = map_of old f)
           \<and> map fst (dict_update old new)
               = map fst old @ filter (\<lambda>f. f \<notin> fst ` set old) (map fst new)"
proof -
  have "refs_ok s"
    using refs_ok_init [OF assms(1)] assms(2) by (rule refs_ok_loop)
  moreover have "record_key (JObj new) = Inr k"
    using assms(3,4) by (simp add: record_key_def)
  ultimately obtain xs old where
    "existing_data s = JArr xs" "i < length xs" "xs ! i = JObj old"
    "merge_step s (JObj new) =
       Inr (s\<lparr>existing_data := JArr (xs[i := JObj (dict_update old new)]),
              updated_count := updated_count s + 1\<rparr>)"
    using step_update [of s "JObj new" k i] assms(5) by auto
  moreover have "\<forall>(f, v) \<in> set new. map_of (dict_update old new) f = Some v"
    using assms(6) by (auto simp: map_of_dict_update map_add_def)
  moreover have "\<forall>f. f \<notin> fst ` set new \<longrightarrow> map_of (dict_update old new) f = map_of old f"
  proof (intro allI impI)
    fix f assume "f \<notin> fst ` set new"
    then have "map_of new f = None" by (simp add: map_of_eq_None_iff)
    then show "map_of (dict_update old new) f = map_of old f"
      using assms(6) by (simp add: map_of_dict_update map_add_def)
  qed
  moreover note dict_update_keys [OF assms(6), of old]
  ultimately show ?thesis
    by (intro exI [of _ xs] exI [of _ old] conjI)
qed

theorem update_semantics_witness:
  "build_exercise_map
     (JArr [JObj [(''name'', JStr ''A''), (''reps'', JInt 1)],
            JObj [(''name'', JStr ''B''), (''reps'', JInt 2), (''note'', JStr ''old'')],
            JObj [(''name'', JStr ''C'')]])
     = Inr [KStr ''A'' \<mapsto> 0, KStr ''B'' \<mapsto> 1, KStr ''C'' \<mapsto> 2]
   \<and> merge_step
       \<lparr>existing_data =
          JArr [JObj [(''name'', JStr ''A''), (''reps'', JInt 1)],
                JObj [(''name'', JStr ''B''), (''reps'', JInt 2), (''note'', JStr ''old'')],
                JObj [(''name'', JStr ''C'')]],
        exercise_map = [KStr ''A'' \<mapsto> 0, KStr ''B'' \<mapsto> 1, KStr ''C'' \<mapsto> 2],
        added_count = 0, updated_count = 0\<rparr>
       (JObj [(''name'', JStr ''B''), (''reps'', JInt 9), (''sets'', JInt 3)])
     = Inr \<lparr>existing_data =
          JArr [JObj [(''name'', JStr ''A''), (''reps'', JInt 1)],
                JObj [(''name'', JStr ''B''), (''reps'', JInt 9), (''note'', JStr ''old''),
                      (''sets'', JInt 3)],
                JObj [(''name'', JStr ''C'')]],
        exercise_map = [KStr ''A'' \<mapsto> 0, KStr ''B'' \<mapsto> 1, KStr ''C'' \<mapsto> 2],
        added_count = 0, updated_count = 1\<rparr>"
proof -
  let ?xs = "[JObj [(''name'', JStr ''A''), (''reps'', JInt 1)],
              JObj [(''name'', JStr ''B''), (''reps'', JInt 2), (''note'', JStr ''old'')],
              JObj [(''name'', JStr ''C'')]]"
  let ?m = "[KStr ''A'' \<mapsto> 0::nat, KStr ''B'' \<mapsto> 1, KStr ''C'' \<mapsto> 2]"
  let ?s = "\<lparr>existing_data = JArr ?xs, exercise_map = ?m, added_count = 0, updated_count = 0\<rparr>"
  let ?new = "[(''name'', JStr ''B''), (''reps'', JInt 9), (''sets'', JInt 3)]"
  have h1: "build_exercise_map (JArr ?xs) = Inr ?m"
    by (simp add: build_exercise_map_def numeral_2_eq_2)
  have h2: "merge_loop ?s [] = Inr ?s" by simp
  have h3: "subscript (JObj ?new) ''name'' = Inr (JStr ''B'')" by simp
  have h4: "py_hash (JStr ''B'') = Inr (KStr ''B'')" by simp
  have h5: "exercise_map ?s (KStr ''B'') = Some 1" by simp
  have h6: "distinct (map fst ?new)" by simp
  from update_semantics [OF h1 h2 h3 h4 h5 h6]
  obtain xs old where "existing_data ?s = JArr xs" "xs ! 1 = JObj old"
    and "merge_step ?s (JObj ?new) =
           Inr (?s\<lparr>existing_data := JArr (xs[1 := JObj (dict_update old ?new)]),
                   updated_count := updated_count ?s + 1\<rparr>)"
    by blast
  then have "merge_step ?s (JObj ?new) =
      Inr (?s\<lparr>existing_data := JArr (?xs[1 := JObj (dict_update
              [(''name'', JStr ''B''), (''reps'', JInt 2), (''note'', JStr ''old'')] ?new)]),
              updated_count := 1\<rparr>)"
    by auto
  with h1 show ?thesis by (simp add: dict_update_def)
qed

text \<open>
  C5 (addition semantics). First part: in any state whose data is a list \<open>xs\<close>, an
  incoming record whose name is not in the index is appended as it is, the index gets its
  name with the position of the appended record, and the addition count grows by one (the
  update count is unchanged). Second part: on a primary list \<open>ys\<close>, a run over one record
  whose name is in the index followed by one whose name is not ends with the first merged in
  place, the second last in the list, one addition and one update.
\<close>

theorem addition_semantics:
  "(subscript new_ex ''name'' = Inr name \<and> py_hash name = Inr k \<and> exercise_map s k = None
      \<and> existing_data s = JArr xs \<longrightarrow>
    merge_step s new_ex =
      Inr (s\<lparr>existing_data := JArr (xs @ [new_ex]),
             exercise_map := (exercise_map s)(k \<mapsto> length xs),
             added_count := added_count s + 1\<rparr>))
   \<and> (build_exercise_map (JArr ys) = Inr m \<and> record_key upd_ex = Inr ku \<and> m ku = Some i
        \<and> record_key add_ex = Inr ka \<and> m ka = None \<longrightarrow>
      merge_loop \<lparr>existing_data = JArr ys, exercise_map = m,
                  added_count = 0, updated_count = 0\<rparr> [upd_ex, add_ex]
      = Inr \<lparr>existing_data =
               JArr (ys[i := JObj (dict_update (dict_items (ys ! i)) (dict_items upd_ex))]
                     @ [add_ex]),
             exercise_map = m(ka \<mapsto> length ys),
             added_count = 1, updated_count = 1\<rparr>)"
proof (intro conjI impI)
  assume "subscript new_ex ''name'' = Inr name \<and> py_hash name = Inr k
    \<and> exercise_map s k = None \<and> existing_data s = JArr xs"
  then show "merge_step s new_ex =
      Inr (s\<lparr>existing_data := JArr (xs @ [new_ex]),
             exercise_map := (exercise_map s)(k \<mapsto> length xs),
             added_count := added_count s + 1\<rparr>)"
    by (intro step_add) (simp_all add: record_key_def)
next
  let ?s0 = "\<lparr>existing_data = JArr ys, exercise_map = m, added_count = 0, updated_count = 0\<rparr>"
  assume a: "build_exercise_map (JArr ys) = Inr m \<and> record_key upd_ex = Inr ku \<and> m ku = Some i
    \<and> record_key add_ex = Inr ka \<and> m ka = None"
  then have "refs_ok ?s0" by (intro refs_ok_init) simp
  from step_update [OF this, of upd_ex ku i] a
  obtain old new where o: "ys ! i = JObj old" "upd_ex = JObj new"
    and 1: "merge_step ?s0 upd_ex =
      Inr \<lparr>existing_data = JArr (ys[i := JObj (dict_update old new)]), exercise_map = m,
           added_count = 0, updated_count = 1\<rparr>"
    by auto
  let ?s1 = "\<lparr>existing_data = JArr (ys[i := JObj (dict_update old new)]), exercise_map = m,
           added_count = 0, updated_count = 1\<rparr>"
  have 2: "merge_step ?s1 add_ex =
      Inr (?s1\<lparr>existing_data := JArr (ys[i := JObj (dict_update old new)] @ [add_ex]),
             exercise_map := (exercise_map ?s1)(ka \<mapsto> length (ys[i := JObj (dict_update old new)])),
             added_count := added_count ?s1 + 1\<rparr>)"
    using a by (intro step_add) simp_all
  show "merge_loop ?s0 [upd_ex, add_ex]
      = Inr \<lparr>existing_data =
               JArr (ys[i := JObj (dict_update (dict_items (ys ! i)) (dict_items upd_ex))]
                     @ [add_ex]),
             exercise_map = m(ka \<mapsto> length ys),
             added_count = 1, updated_count = 1\<rparr>"
    using 1 2 o by simp
qed

theorem addition_semantics_witness:
  "merge_loop
     \<lparr>existing_data = JArr [JObj [(''name'', JStr ''A''), (''reps'', JInt 1)],
                            JObj [(''name'', JStr ''B'')]],
      exercise_map = [KStr ''A'' \<mapsto> 0, KStr ''B'' \<mapsto> 1],
      added_count = 0, updated_count = 0\<rparr>
     [JObj [(''name'', JStr ''A''), (''reps'', JInt 5)], JObj [(''name'', JStr ''C'')]]
   = Inr \<lparr>existing_data = JArr [JObj [(''name'', JStr ''A''), (''reps'', JInt 5)],
                                  JObj [(''name'', JStr ''B'')],
                                  JObj [(''name'', JStr ''C'')]],
           exercise_map = [KStr ''A'' \<mapsto> 0, KStr ''B'' \<mapsto> 1, KStr ''C'' \<mapsto> 2],
           added_count = 1, updated_count = 1\<rparr>
   \<and> merge_step
     \<lparr>existing_data = JArr [JObj [(''name'', JStr ''A'')]],
      exercise_map = [KStr ''A'' \<mapsto> 0], added_count = 0, updated_count = 0\<rparr>
     (JObj [(''name'', JStr ''D'')])
   = Inr \<lparr>existing_data = JArr [JObj [(''name'', JStr ''A'')], JObj [(''name'', JStr ''D'')]],
           exercise_map = [KStr ''A'' \<mapsto> 0, KStr ''D'' \<mapsto> 1],
           added_count = 1, updated_count = 0\<rparr>"
proof -
  let ?ys = "[JObj [(''name'', JStr ''A''), (''reps'', JInt 1)], JObj [(''name'', JStr ''B'')]]"
  let ?m = "[KStr ''A'' \<mapsto> 0::nat, KStr ''B'' \<mapsto> 1]"
  let ?upd = "JObj [(''name'', JStr ''A''), (''reps'', JInt 5)]"
  let ?add = "JObj [(''name'', JStr ''C'')]"
  let ?s = "\<lparr>existing_data = JArr [JObj [(''name'', JStr ''A'')]],
      exercise_map = [KStr ''A'' \<mapsto> 0::nat], added_count = 0, updated_count = 0\<rparr>"
  have mixed: "build_exercise_map (JArr ?ys) = Inr ?m \<and> record_key ?upd = Inr (KStr ''A'')
      \<and> ?m (KStr ''A'') = Some 0 \<and> record_key ?add = Inr (KStr ''C'') \<and> ?m (KStr ''C'') = None"
    by (simp add: build_exercise_map_def record_key_def)
  have step: "subscript (JObj [(''name'', JStr ''D'')]) ''name'' = Inr (JStr ''D'')
      \<and> py_hash (JStr ''D'') = Inr (KStr ''D'') \<and> exercise_map ?s (KStr ''D'') = None
      \<and> existing_data ?s = JArr [JObj [(''name'', JStr ''A'')]]"
    by simp
  from addition_semantics [of "JObj [(''name'', JStr ''D'')]" "JStr ''D''" "KStr ''D''" ?s
      "[JObj [(''name'', JStr ''A'')]]" ?ys ?m ?upd "KStr ''A''" 0 ?add "KStr ''C''"]
    mixed step
  show ?thesis by (simp add: dict_update_def numeral_2_eq_2)
qed

text \<open>
  C10 (duplicate names in the primary store). Let the primary store load as the list
  \<open>xs\<close>, let the record at some position \<open>j\<close> have the key \<open>k\<close>, and let the incoming
  store hold one record with that key. Then the index sends \<open>k\<close> to the last position
  \<open>i\<close> whose record has the key \<open>k\<close>, the run succeeds with one update, and the list
  written back is \<open>xs\<close> with the element at \<open>i\<close> alone replaced: the earlier duplicates are
  unchanged and all of them are still there.
\<close>

theorem duplicate_names_last_wins:
  assumes "read_json fs EXERCISES_FILE = Inr (JArr xs)"
    and "build_exercise_map (JArr xs) = Inr m"
    and "j < length xs" and "record_key (xs ! j) = Inr k"
    and "read_json fs NEW_EXERCISES_FILE = Inr (JArr [JObj new])"
    and "record_key (JObj new) = Inr k"
  shows "\<exists>i old c. m k = Some i \<and> j \<le> i \<and> i < length xs \<and> record_key (xs ! i) = Inr k
           \<and> (\<forall>j'. i < j' \<and> j' < length xs \<longrightarrow> record_key (xs ! j') \<noteq> Inr k)
           \<and> xs ! i = JObj old \<and> fs EXERCISES_FILE = Some c
           \<and> merge_exercises fs =
               (Returns (MergeSuccessful 0 1),
                fs(EXERCISES_FILE @ ''.bak'' \<mapsto> c,
                   EXERCISES_FILE \<mapsto>
                     JsonText indent2 (JArr (xs[i := JObj (dict_update old new)]))))"
proof -
  let ?s0 = "\<lparr>existing_data = JArr xs, exercise_map = m, added_count = 0, updated_count = 0\<rparr>"
  from assms(2) have m: "m = index_of xs" by (simp add: build_exercise_map_list)
  from assms(3,4) have "index_of xs k \<noteq> None" by (auto simp: index_of_None_iff)
  then obtain i where i: "m k = Some i" using m by auto
  then have last: "i < length xs" "record_key (xs ! i) = Inr k"
    "\<forall>j'. i < j' \<and> j' < length xs \<longrightarrow> record_key (xs ! j') \<noteq> Inr k"
    using m by (simp_all add: index_of_Some_iff)
  have ji: "j \<le> i"
  proof (rule ccontr)
    assume "\<not> j \<le> i"
    then have "i < j \<and> j < length xs" using assms(3) by simp
    with last(3) have "record_key (xs ! j) \<noteq> Inr k" by blast
    with assms(4) show False by simp
  qed
  have "refs_ok ?s0" using assms(2) by (rule refs_ok_init)
  from step_update [OF this assms(6), of i] i
  obtain old where old: "xs ! i = JObj old"
    and step: "merge_step ?s0 (JObj new) =
      Inr \<lparr>existing_data = JArr (xs[i := JObj (dict_update old new)]), exercise_map = m,
           added_count = 0, updated_count = 1\<rparr>"
    by auto
  from assms(1) obtain c where c: "fs EXERCISES_FILE = Some c"
    by (auto dest: read_json_present)
  have loop: "merge_loop ?s0 [JObj new] =
      Inr \<lparr>existing_data = JArr (xs[i := JObj (dict_update old new)]), exercise_map = m,
           added_count = 0, updated_count = 1\<rparr>"
    using step by simp
  have "merge_exercises fs =
      (Returns (MergeSuccessful 0 1),
       fs(EXERCISES_FILE @ ''.bak'' \<mapsto> c,
          EXERCISES_FILE \<mapsto> JsonText indent2 (JArr (xs[i := JObj (dict_update old new)]))))"
    using merge_exercises_success [OF load_existing_read [OF assms(1)] assms(2) assms(5) _ loop c]
    by simp
  with i ji last old c show ?thesis by blast
qed

theorem duplicate_names_last_wins_witness:
  "merge_exercises
     [EXERCISES_FILE \<mapsto>
        JsonText 0 (JArr [JObj [(''name'', JStr ''squat''), (''reps'', JInt 3)],
                          JObj [(''name'', JStr ''lunge'')],
                          JObj [(''name'', JStr ''squat''), (''reps'', JInt 4)]]),
      NEW_EXERCISES_FILE \<mapsto>
        JsonText 0 (JArr [JObj [(''name'', JStr ''squat''), (''reps'', JInt 5)]])]
   = (Returns (MergeSuccessful 0 1),
      [EXERCISES_FILE \<mapsto>
         JsonText indent2 (JArr [JObj [(''name'', JStr ''squat''), (''reps'', JInt 3)],
                                 JObj [(''name'', JStr ''lunge'')],
                                 JObj [(''name'', JStr ''squat''), (''reps'', JInt 5)]]),
       NEW_EXERCISES_FILE \<mapsto>
         JsonText 0 (JArr [JObj [(''name'', JStr ''squat''), (''reps'', JInt 5)]]),
       EXERCISES_FILE @ ''.bak'' \<mapsto>
         JsonText 0 (JArr [JObj [(''name'', JStr ''squat''), (''reps'', JInt 3)],
                           JObj [(''name'', JStr ''lunge'')],
                           JObj [(''name'', JStr ''squat''), (''reps'', JInt 4)]])])"
proof -
  let ?xs = "[JObj [(''name'', JStr ''squat''), (''reps'', JInt 3)],
              JObj [(''name'', JStr ''lunge'')],
              JObj [(''name'', JStr ''squat''), (''reps'', JInt 4)]]"
  let ?new = "[(''name'', JStr ''squat''), (''reps'', JInt 5)]"
  let ?fs = "[EXERCISES_FILE \<mapsto> JsonText 0 (JArr ?xs),
              NEW_EXERCISES_FILE \<mapsto> JsonText 0 (JArr [JObj ?new])]"
  let ?m = "[KStr ''squat'' \<mapsto> 0::nat, KStr ''lunge'' \<mapsto> 1, KStr ''squat'' \<mapsto> 2]"
  have h1: "read_json ?fs EXERCISES_FILE = Inr (JArr ?xs)"
    by (simp add: read_json_def EXERCISES_FILE_def NEW_EXERCISES_FILE_def dict_update_def)
  have h2: "build_exercise_map (JArr ?xs) = Inr ?m"
    by (simp add: build_exercise_map_def numeral_2_eq_2)
  have h3: "0 < length ?xs" by simp
  have h4: "record_key (?xs ! 0) = Inr (KStr ''squat'')" by (simp add: record_key_def)
  have h5: "read_json ?fs NEW_EXERCISES_FILE = Inr (JArr [JObj ?new])"
    by (simp add: read_json_def EXERCISES_FILE_def NEW_EXERCISES_FILE_def dict_update_def)
  have h6: "record_key (JObj ?new) = Inr (KStr ''squat'')" by (simp add: record_key_def)
  from duplicate_names_last_wins [OF h1 h2 h3 h4 h5 h6]
  obtain i old c where "?m (KStr ''squat'') = Some i" "?xs ! i = JObj old"
    "?fs EXERCISES_FILE = Some c"
    "merge_exercises ?fs =
       (Returns (MergeSuccessful 0 1),
        ?fs(EXERCISES_FILE @ ''.bak'' \<mapsto> c,
            EXERCISES_FILE \<mapsto> JsonText indent2 (JArr (?xs[i := JObj (dict_update old ?new)]))))"
    by blast
  then have "merge_exercises ?fs =
       (Returns (MergeSuccessful 0 1),
        ?fs(EXERCISES_FILE @ ''.bak'' \<mapsto> JsonText 0 (JArr ?xs),
            EXERCISES_FILE \<mapsto> JsonText indent2 (JArr (?xs[2 :=
               JObj (dict_update [(''name'', JStr ''squat''), (''reps'', JInt 4)] ?new)]))))"
    by (auto simp: EXERCISES_FILE_def NEW_EXERCISES_FILE_def)
  then show ?thesis
    by (simp add: dict_update_def EXERCISES_FILE_def NEW_EXERCISES_FILE_def fun_upd_twist)
qed

text \<open>
  C9 (a record without a name aborts the run before anything is written). If the loaded
  primary list or the incoming list holds a dictionary without the key \<^verbatim>\<open>name\<close>, the
  run returns with a printed error and the file system (primary store and backup path
  included) is unchanged. The error is \<^verbatim>\<open>KeyError('name')\<close> whenever that dictionary
  is the first thing to fail: in the primary list, when the records before it index without
  error; in the incoming list, when the primary data indexes without error and the loop gets
  through the records before it.
\<close>

theorem missing_name_aborts:
  assumes "(\<exists>xs r. load_existing fs = Inr (JArr xs) \<and> JObj r \<in> set xs
              \<and> ''name'' \<notin> fst ` set r)
         \<or> (\<exists>ys r. read_json fs NEW_EXERCISES_FILE = Inr (JArr ys) \<and> JObj r \<in> set ys
              \<and> ''name'' \<notin> fst ` set r)"
  shows "\<exists>e. is_Exception e \<and> merge_exercises fs = (Returns (ErrorMerging e), fs)
     \<and> ((\<exists>pre r post m. load_existing fs = Inr (JArr (pre @ JObj r # post))
            \<and> ''name'' \<notin> fst ` set r \<and> build_exercise_map (JArr pre) = Inr m)
        \<or> (\<exists>data m pre r post s. load_existing fs = Inr data
            \<and> build_exercise_map data = Inr m
            \<and> read_json fs NEW_EXERCISES_FILE = Inr (JArr (pre @ JObj r # post))
            \<and> ''name'' \<notin> fst ` set r
            \<and> merge_loop \<lparr>existing_data = data, exercise_map = m,
                            added_count = 0, updated_count = 0\<rparr> pre = Inr s)
        \<longrightarrow> e = KeyError ''name'')"
proof -
  have "\<exists>e. fst (merge_body fs) = Inl e"
    using assms
  proof (elim disjE exE conjE)
    fix xs r
    assume l: "load_existing fs = Inr (JArr xs)" and r: "JObj r \<in> set xs"
      and n: "''name'' \<notin> fst ` set r"
    have "\<not> (\<forall>x \<in> set xs. \<exists>k. record_key x = Inr k)"
      using r record_key_nameless [OF n] by force
    then have "\<not> (\<exists>m. build_exercise_map (JArr xs) = Inr m)"
      by (simp add: build_exercise_map_list)
    then obtain e where "build_exercise_map (JArr xs) = Inl e"
      by (cases "build_exercise_map (JArr xs)") auto
    with l show ?thesis by (simp add: merge_body_def)
  next
    fix ys r
    assume i: "read_json fs NEW_EXERCISES_FILE = Inr (JArr ys)" and r: "JObj r \<in> set ys"
      and n: "''name'' \<notin> fst ` set r"
    have "\<And>s. \<exists>e. merge_loop s ys = Inl e"
    proof -
      fix s
      have "\<not> (\<forall>x \<in> set ys. \<exists>k. record_key x = Inr k)"
        using r record_key_nameless [OF n] by force
      then have "\<not> (\<exists>s'. merge_loop s ys = Inr s')"
        using merge_loop_keyed by blast
      then show "\<exists>e. merge_loop s ys = Inl e"
        by (cases "merge_loop s ys") auto
    qed
    then show ?thesis
      using i by (auto simp: merge_body_def split: sum.splits) (metis Inl_Inr_False)
  qed
  then obtain e where e: "fst (merge_body fs) = Inl e" ..
  have "e = KeyError ''name''"
    if "(\<exists>pre r post m. load_existing fs = Inr (JArr (pre @ JObj r # post))
            \<and> ''name'' \<notin> fst ` set r \<and> build_exercise_map (JArr pre) = Inr m)
        \<or> (\<exists>data m pre r post s. load_existing fs = Inr data
            \<and> build_exercise_map data = Inr m
            \<and> read_json fs NEW_EXERCISES_FILE = Inr (JArr (pre @ JObj r # post))
            \<and> ''name'' \<notin> fst ` set r
            \<and> merge_loop \<lparr>existing_data = data, exercise_map = m,
                            added_count = 0, updated_count = 0\<rparr> pre = Inr s)"
    using that
  proof (elim disjE exE conjE)
    fix pre r post m
    assume l: "load_existing fs = Inr (JArr (pre @ JObj r # post))"
      and n: "''name'' \<notin> fst ` set r" and b: "build_exercise_map (JArr pre) = Inr m"
    from b have "\<forall>x \<in> set pre. \<exists>k. record_key x = Inr k"
      by (simp add: build_exercise_map_list)
    then have "build_exercise_map (JArr (pre @ JObj r # post)) = Inl (KeyError ''name'')"
      using record_key_nameless [OF n]
      by (simp add: build_exercise_map_def exercise_map_from_first_failure)
    with l have "fst (merge_body fs) = Inl (KeyError ''name'')"
      by (simp add: merge_body_def)
    with e show ?thesis by simp
  next
    fix data m pre r post s
    assume l: "load_existing fs = Inr data" and b: "build_exercise_map data = Inr m"
      and i: "read_json fs NEW_EXERCISES_FILE = Inr (JArr (pre @ JObj r # post))"
      and n: "''name'' \<notin> fst ` set r"
      and p: "merge_loop \<lparr>existing_data = data, exercise_map = m,
                            added_count = 0, updated_count = 0\<rparr> pre = Inr s"
    have "merge_loop \<lparr>existing_data = data, exercise_map = m,
                       added_count = 0, updated_count = 0\<rparr> (pre @ JObj r # post)
        = Inl (KeyError ''name'')"
      using p merge_step_unkeyed [OF record_key_nameless [OF n]]
      by (simp add: merge_loop_append)
    with l b i have "fst (merge_body fs) = Inl (KeyError ''name'')"
      by (simp add: merge_body_def)
    with e show ?thesis by simp
  qed
  with merge_exercises_error [OF e] show ?thesis by blast
qed

theorem missing_name_aborts_witness:
  "read_json
     [EXERCISES_FILE \<mapsto> JsonText 0 (JArr [JObj [(''name'', JStr ''squat'')]]),
      NEW_EXERCISES_FILE \<mapsto>
        JsonText 0 (JArr [JObj [(''name'', JStr ''squat''), (''reps'', JInt 5)],
                          JObj [(''reps'', JInt 8)]])]
     NEW_EXERCISES_FILE
     = Inr (JArr [JObj [(''name'', JStr ''squat''), (''reps'', JInt 5)],
                  JObj [(''reps'', JInt 8)]])
   \<and> ''name'' \<notin> fst ` set [(''reps'', JInt 8)]
   \<and> merge_exercises
     [EXERCISES_FILE \<mapsto> JsonText 0 (JArr [JObj [(''name'', JStr ''squat'')]]),
      NEW_EXERCISES_FILE \<mapsto>
        JsonText 0 (JArr [JObj [(''name'', JStr ''squat''), (''reps'', JInt 5)],
                          JObj [(''reps'', JInt 8)]])]
     = (Returns (ErrorMerging (KeyError ''name'')),
        [EXERCISES_FILE \<mapsto> JsonText 0 (JArr [JObj [(''name'', JStr ''squat'')]]),
         NEW_EXERCISES_FILE \<mapsto>
           JsonText 0 (JArr [JObj [(''name'', JStr ''squat''), (''reps'', JInt 5)],
                             JObj [(''reps'', JInt 8)]])])"
proof -
  let ?ys = "[JObj [(''name'', JStr ''squat''), (''reps'', JInt 5)], JObj [(''reps'', JInt 8)]]"
  let ?fs = "[EXERCISES_FILE \<mapsto> JsonText 0 (JArr [JObj [(''name'', JStr ''squat'')]]),
              NEW_EXERCISES_FILE \<mapsto> JsonText 0 (JArr ?ys)]"
  have h: "read_json ?fs NEW_EXERCISES_FILE = Inr (JArr ?ys)"
    by (simp add: read_json_def EXERCISES_FILE_def NEW_EXERCISES_FILE_def dict_update_def)
  have n: "''name'' \<notin> fst ` set [(''reps'', JInt 8)]" by simp
  have "(\<exists>xs r. load_existing ?fs = Inr (JArr xs) \<and> JObj r \<in> set xs
              \<and> ''name'' \<notin> fst ` set r)
         \<or> (\<exists>ys r. read_json ?fs NEW_EXERCISES_FILE = Inr (JArr ys) \<and> JObj r \<in> set ys
              \<and> ''name'' \<notin> fst ` set r)"
    using h n by (intro disjI2 exI [of _ ?ys] exI [of _ "[(''reps'', JInt 8)]"]) simp
  from missing_name_aborts [OF this]
  obtain e where "merge_exercises ?fs = (Returns (ErrorMerging e), ?fs)" by blast
  moreover have "fst (merge_exercises ?fs) = Returns (ErrorMerging (KeyError ''name''))"
    by (simp add: run_defs)
  ultimately show ?thesis using h n by simp
qed



end
